theory Spec2Isabelle
  imports Complex_Main
begin

section \<open>TreeProjection: point clouds, projection planes and density images\<close>

text \<open>
  The development follows \<^verbatim>\<open>TreeProjection.py\<close> function by function. A numpy array of
  shape N x 3 is a list of triples, an array of shape N x 2 a list of pairs, a 1-D array a list.
  Coordinates are binary64 numbers in the program. The model reads them as the real numbers
  they denote and every operation as the exact one; what numpy does at a division by zero (an
  infinity or a NaN, and the exception that follows) is written out as a branch. Where the
  result depends on rounding, in the computation of the bin edges, the model has a second
  version with every operation rounded to binary64.
\<close>

subsection \<open>Exceptions\<close>

text \<open>
  The subclasses of Python's \<^verbatim>\<open>Exception\<close> that the script and its collaborators raise.
  \<open>External\<close> stands for any exception raised inside laspy, matplotlib or the operating
  system (an unreadable file, a failed write).
\<close>

datatype exn =
    ValueError
  | OverflowError
  | FileNotFoundError
  | NotADirectoryError
  | External string

subsection \<open>Geometry utilities\<close>

type_synonym point3 = "real \<times> real \<times> real"
type_synonym point2 = "real \<times> real"

fun xc :: "point3 \<Rightarrow> real" where "xc (x, y, z) = x"
fun yc :: "point3 \<Rightarrow> real" where "yc (x, y, z) = y"
fun zc :: "point3 \<Rightarrow> real" where "zc (x, y, z) = z"

text \<open>
  \<^verbatim>\<open>las2numpy\<close>: \<^verbatim>\<open>np.vstack([las.x, las.y, las.z]).T\<close>. A LAS object carries three
  coordinate arrays of one length.
\<close>

record las =
  las_x :: "real list"
  las_y :: "real list"
  las_z :: "real list"

definition las2numpy :: "las \<Rightarrow> point3 list" where
  "las2numpy l = zip (las_x l) (zip (las_y l) (las_z l))"

text \<open>
  \<^verbatim>\<open>np.argmax\<close> scans left to right and keeps the first index of the largest value: the
  running best is replaced only by a strictly larger element. On an empty array it raises
  ValueError.
\<close>

fun argmax_scan :: "'a::linorder \<Rightarrow> nat \<Rightarrow> nat \<Rightarrow> 'a list \<Rightarrow> nat" where
  "argmax_scan best bi i [] = bi"
| "argmax_scan best bi i (x # xs) =
     (if best < x then argmax_scan x i (Suc i) xs else argmax_scan best bi (Suc i) xs)"

definition argmax :: "'a::linorder list \<Rightarrow> exn + nat" where
  "argmax xs = (case xs of [] \<Rightarrow> Inl ValueError | x # rest \<Rightarrow> Inr (argmax_scan x 0 1 rest))"

definition find_highest_point :: "point3 list \<Rightarrow> exn + point3" where
  "find_highest_point points =
     (case argmax (map zc points) of
        Inl e \<Rightarrow> Inl e
      | Inr max_idx \<Rightarrow> Inr (points ! max_idx))"

definition offset :: "point3 list \<Rightarrow> exn + point3" where
  "offset points =
     (case find_highest_point points of
        Inl e \<Rightarrow> Inl e
      | Inr highest \<Rightarrow> Inr (xc highest, yc highest, 0))"

text \<open>\<^verbatim>\<open>points - o\<close>: the offset is subtracted from every row.\<close>

fun sub3 :: "point3 \<Rightarrow> point3 \<Rightarrow> point3" where
  "sub3 (x, y, z) (ox, oy, oz) = (x - ox, y - oy, z - oz)"

definition shift_points :: "point3 list \<Rightarrow> point3 \<Rightarrow> point3 list" where
  "shift_points points o3 = map (\<lambda>p. sub3 p o3) points"

definition radians :: "real \<Rightarrow> real" where
  "radians d = d * pi / 180"

definition get_plane :: "real \<Rightarrow> point3 \<times> point3 \<times> point3" where
  "get_plane angle_deg =
     (let angle = radians angle_deg;
          u = (cos angle, sin angle, 0);
          v = (0, 0, 1);
          n = (- sin angle, cos angle, 0)
      in (u, v, n))"

subsection \<open>Projector\<close>

text \<open>\<^verbatim>\<open>np.dot\<close> of one row with a 3-vector, and of an N x 3 array with a 3-vector.\<close>

fun dot3 :: "point3 \<Rightarrow> point3 \<Rightarrow> real" where
  "dot3 (x, y, z) (a, b, c) = x * a + y * b + z * c"

definition dot_rows :: "point3 list \<Rightarrow> point3 \<Rightarrow> real list" where
  "dot_rows points w = map (\<lambda>p. dot3 p w) points"

text \<open>\<^verbatim>\<open>np.column_stack\<close> of two 1-D arrays of one length pairs them row by row.\<close>

definition column_stack :: "real list \<Rightarrow> real list \<Rightarrow> point2 list" where
  "column_stack c0 c1 = zip c0 c1"

definition project_to_plane :: "point3 list \<Rightarrow> point3 \<Rightarrow> point3 \<Rightarrow> point2 list" where
  "project_to_plane points u v = column_stack (dot_rows points u) (dot_rows points v)"

text \<open>
  The same function on an explicit store of arrays, to speak about its arguments after the
  call: an address is an index into the store, \<^verbatim>\<open>np.dot\<close> and \<^verbatim>\<open>np.column_stack\<close>
  allocate their results, and nothing is assigned into an existing array. Reading an
  address that holds no N x 3 array is a ValueError.
\<close>

datatype ndarray = Arr3 "point3 list" | Arr2 "point2 list"

type_synonym store = "ndarray list"

definition alloc :: "store \<Rightarrow> ndarray \<Rightarrow> store \<times> nat" where
  "alloc st a = (st @ [a], length st)"

definition project_to_plane_st :: "store \<Rightarrow> nat \<Rightarrow> point3 \<Rightarrow> point3 \<Rightarrow> exn + (store \<times> nat)" where
  "project_to_plane_st st points u v =
     (if points < length st then
        (case st ! points of
           Arr3 ps \<Rightarrow> Inr (alloc st (Arr2 (project_to_plane ps u v)))
         | Arr2 _ \<Rightarrow> Inl ValueError)
      else Inl ValueError)"

text \<open>The Euclidean length of a vector, for stating that a basis vector is a unit vector.\<close>

definition norm3 :: "point3 \<Rightarrow> real" where
  "norm3 p = sqrt (dot3 p p)"

subsection \<open>Histogram builder\<close>

text \<open>
  \<^verbatim>\<open>a.min()\<close> and \<^verbatim>\<open>a.max()\<close> of a 1-D array; both raise ValueError on an empty array.
\<close>

definition np_min :: "'a::linorder list \<Rightarrow> exn + 'a" where
  "np_min xs = (case xs of [] \<Rightarrow> Inl ValueError | x # rest \<Rightarrow> Inr (fold min rest x))"

definition np_max :: "'a::linorder list \<Rightarrow> exn + 'a" where
  "np_max xs = (case xs of [] \<Rightarrow> Inl ValueError | x # rest \<Rightarrow> Inr (fold max rest x))"

text \<open>
  Lines 90 to 94: the extents of the two columns and their lengths
  \<open>((xmin, xmax), (ymin, ymax), xl, yl)\<close>.
\<close>

definition extents :: "point2 list \<Rightarrow> exn + ((real \<times> real) \<times> (real \<times> real) \<times> real \<times> real)" where
  "extents projected_points =
     (case np_min (map fst projected_points) of Inl e \<Rightarrow> Inl e | Inr x0 \<Rightarrow>
      case np_max (map fst projected_points) of Inl e \<Rightarrow> Inl e | Inr x1 \<Rightarrow>
      case np_min (map snd projected_points) of Inl e \<Rightarrow> Inl e | Inr y0 \<Rightarrow>
      case np_max (map snd projected_points) of Inl e \<Rightarrow> Inl e | Inr y1 \<Rightarrow>
        Inr ((x0, x1), (y0, y1), x1 - x0, y1 - y0))"

text \<open>
  A numpy float64 scalar divides without raising: a finite non-zero value over zero is an
  infinity, zero over zero is a NaN (numpy warns and goes on). An extent length is never below
  zero, and a zero one is \<open>+0.0\<close>, so only these cases of the division are written out.
  Python's \<^verbatim>\<open>int()\<close> truncates a finite float towards zero, raises OverflowError on an
  infinity and ValueError on a NaN.
\<close>

datatype npfloat = Fin real | PInf | NInf | NaN

definition np_div :: "npfloat \<Rightarrow> npfloat \<Rightarrow> npfloat" where
  "np_div a b =
     (case (a, b) of
        (Fin x, Fin y) \<Rightarrow>
          (if y \<noteq> 0 then Fin (x / y)
           else if x = 0 then NaN else if 0 < x then PInf else NInf)
      | (Fin x, PInf) \<Rightarrow> Fin 0
      | (Fin x, NInf) \<Rightarrow> Fin 0
      | (_, _) \<Rightarrow> NaN)"

definition trunc :: "real \<Rightarrow> int" where
  "trunc r = (if 0 \<le> r then \<lfloor>r\<rfloor> else \<lceil>r\<rceil>)"

definition py_int :: "npfloat \<Rightarrow> exn + int" where
  "py_int a =
     (case a of
        Fin r \<Rightarrow> Inr (trunc r)
      | PInf \<Rightarrow> Inl OverflowError
      | NInf \<Rightarrow> Inl OverflowError
      | NaN \<Rightarrow> Inl ValueError)"

text \<open>Lines 96 and 97: \<^verbatim>\<open>ypx = 1000; xpx = int(ypx / (yl / xl))\<close>.\<close>

definition ypx :: int where
  "ypx = 1000"

definition xpx :: "real \<Rightarrow> real \<Rightarrow> exn + int" where
  "xpx xl yl = py_int (np_div (Fin (of_int ypx)) (np_div (Fin yl) (Fin xl)))"

text \<open>
  \<^verbatim>\<open>np.arange(start, stop, step)\<close> on floats: the length is
  \<open>\<lceil>(stop - start) / step\<rceil>\<close>; element 0 is \<open>start\<close>, element 1 is \<open>start + step\<close>, and element
  \<open>i\<close> is \<open>start + i * delta\<close> with \<open>delta = (start + step) - start\<close>. With a zero step
  the quotient is a NaN (equal ends, ValueError) or an infinity (OverflowError).
\<close>

definition arange :: "real \<Rightarrow> real \<Rightarrow> real \<Rightarrow> exn + real list" where
  "arange start stop step =
     (if step = 0 then (if stop - start = 0 then Inl ValueError else Inl OverflowError)
      else
        (let len = nat \<lceil>(stop - start) / step\<rceil>;
             next = start + step;
             delta = next - start
         in Inr (map (\<lambda>i. if i = 0 then start else if i = 1 then next
                           else start + real i * delta) [0..<len])))"

text \<open>Lines 100 to 103: the point density and the two arrays of bin edges.\<close>

definition point_density :: "real \<Rightarrow> real \<Rightarrow> nat \<Rightarrow> real" where
  "point_density xl yl n = sqrt ((xl * yl) / real n)"

definition bin_edges :: "real \<times> real \<Rightarrow> real \<Rightarrow> exn + real list" where
  "bin_edges ext pd = arange (fst ext) (snd ext + pd) pd"

text \<open>
  \<^verbatim>\<open>np.histogram2d\<close> with explicit edges. Each array of edges must be non-decreasing
  (ValueError otherwise). \<^verbatim>\<open>searchsorted(edges, x, side='right')\<close> is the number of edges
  at most \<open>x\<close>; a sample equal to the last edge is moved one bin to the left; a sample is
  counted in bin \<open>k\<close> when its number is \<open>k + 1\<close>, and samples numbered \<open>0\<close> or
  \<open>length edges\<close> are outliers and are not counted. The result has one row per x-bin.
\<close>

definition searchsorted_right :: "'a::linorder list \<Rightarrow> 'a \<Rightarrow> nat" where
  "searchsorted_right edges x = length (takeWhile (\<lambda>e. e \<le> x) edges)"

definition bin_number :: "'a::linorder list \<Rightarrow> 'a \<Rightarrow> nat" where
  "bin_number edges x =
     (if edges \<noteq> [] \<and> x = last edges then searchsorted_right edges x - 1
      else searchsorted_right edges x)"

definition histogram2d ::
  "'a::linorder list \<Rightarrow> 'a list \<Rightarrow> 'a list \<Rightarrow> 'a list \<Rightarrow> exn + nat list list" where
  "histogram2d xs ys xedges yedges =
     (if \<not> sorted xedges \<or> \<not> sorted yedges then Inl ValueError
      else Inr (map (\<lambda>a. map (\<lambda>b. length (filter (\<lambda>(x, y).
                  bin_number xedges x = Suc a \<and> bin_number yedges y = Suc b) (zip xs ys)))
                [0..<length yedges - 1]) [0..<length xedges - 1]))"

text \<open>\<^verbatim>\<open>hist2d\<close>: the histogram of the two columns, transposed.\<close>

definition hist2d :: "('a::linorder \<times> 'a) list \<Rightarrow> 'a list \<Rightarrow> 'a list \<Rightarrow> exn + nat list list" where
  "hist2d points xbins ybins =
     (case histogram2d (map fst points) (map snd points) xbins ybins of
        Inl e \<Rightarrow> Inl e
      | Inr H \<Rightarrow> Inr (transpose H))"

definition grid_total :: "nat list list \<Rightarrow> nat" where
  "grid_total arr = sum_list (map sum_list arr)"

text \<open>
  Lines 90 to 94 and 100 to 106 together: from the projected points to the count grid.
\<close>

definition density_grid :: "point2 list \<Rightarrow> exn + nat list list" where
  "density_grid projected_points =
     (case extents projected_points of Inl e \<Rightarrow> Inl e | Inr (xext, yext, xl, yl) \<Rightarrow>
      let pd = point_density xl yl (length projected_points) in
      case bin_edges xext pd of Inl e \<Rightarrow> Inl e | Inr xbins \<Rightarrow>
      case bin_edges yext pd of Inl e \<Rightarrow> Inl e | Inr ybins \<Rightarrow>
        hist2d projected_points xbins ybins)"

subsection \<open>Image renderer\<close>

text \<open>
  Lines 108 to 122. The figure handed to matplotlib is the log-transformed grid with the
  colour window \<open>vmin = -1\<close>, \<open>vmax = 0.5 * larr.max()\<close> and the aspect \<open>xpx / ypx\<close>;
  \<^verbatim>\<open>larr.max()\<close> raises ValueError on a grid without cells. The file written is named by the
  output folder, the input file (for its stem) and the angle.
\<close>

record image =
  img_folder :: string
  img_source :: string
  img_angle :: int
  img_data :: "real list list"
  img_aspect :: real
  img_vmin :: real
  img_vmax :: real

definition log_transform :: "nat list list \<Rightarrow> real list list" where
  "log_transform arr = map (map (\<lambda>c. ln (real c + 1))) arr"

definition grid_max :: "real list list \<Rightarrow> exn + real" where
  "grid_max larr = np_max (concat larr)"

definition color_window :: "nat list list \<Rightarrow> exn + (real \<times> real)" where
  "color_window arr =
     (case grid_max (log_transform arr) of
        Inl e \<Rightarrow> Inl e
      | Inr m \<Rightarrow> Inr (- 1, m * 0.5))"

text \<open>
  The value a cell is drawn with: its log-count clamped to the colour window. The colour map
  \<^verbatim>\<open>binary\<close> draws larger values darker.
\<close>

definition clamp :: "real \<Rightarrow> real \<Rightarrow> real \<Rightarrow> real" where
  "clamp lo hi x = (if x < lo then lo else if hi < x then hi else x)"


text \<open>
  The grey level of a cell is the position of that value inside the window, 0 for \<open>vmin\<close> and
  1 for \<open>vmax\<close> (matplotlib's linear normalisation).
\<close>

definition grey_level :: "nat list list \<Rightarrow> nat \<Rightarrow> nat \<Rightarrow> exn + real" where
  "grey_level arr i j =
     (case color_window arr of
        Inl e \<Rightarrow> Inl e
      | Inr (vmin, vmax) \<Rightarrow>
          Inr ((clamp vmin vmax (log_transform arr ! i ! j) - vmin) / (vmax - vmin)))"

subsection \<open>Processing one file\<close>

text \<open>
  The collaborators: creating the output folder, laspy reading a file, matplotlib drawing
  and saving a figure. Each may raise; the file system maps a path to what is there, and
  \<open>cpu_count\<close> is the number of processors.
\<close>

datatype fsnode = File | Dir "(string \<times> fsnode) list"

record env =
  mkdir :: "string \<Rightarrow> exn option"
  las_read :: "string \<Rightarrow> exn + las"
  savefig :: "image \<Rightarrow> exn option"
  fs :: "string \<Rightarrow> fsnode option"
  cpu_count :: int

text \<open>
  Lines 84 to 87: the projected points of one angle. Lines 80 to 122: everything up to the
  figure that is to be saved.
\<close>

definition projection :: "point3 list \<Rightarrow> int \<Rightarrow> point2 list" where
  "projection shifted_points angle =
     (case get_plane (of_int angle) of (u, v, n) \<Rightarrow> project_to_plane shifted_points u v)"

definition angle_image :: "string \<Rightarrow> string \<Rightarrow> point3 list \<Rightarrow> int \<Rightarrow> exn + image" where
  "angle_image input_file output_folder shifted_points angle =
     (let projected_points = projection shifted_points angle in
      case extents projected_points of Inl e \<Rightarrow> Inl e | Inr (xext, yext, xl, yl) \<Rightarrow>
      case xpx xl yl of Inl e \<Rightarrow> Inl e | Inr w \<Rightarrow>
      let pd = point_density xl yl (length projected_points) in
      case bin_edges xext pd of Inl e \<Rightarrow> Inl e | Inr xbins \<Rightarrow>
      case bin_edges yext pd of Inl e \<Rightarrow> Inl e | Inr ybins \<Rightarrow>
      case hist2d projected_points xbins ybins of Inl e \<Rightarrow> Inl e | Inr arr \<Rightarrow>
      case color_window arr of Inl e \<Rightarrow> Inl e | Inr (vmin, vmax) \<Rightarrow>
        Inr \<lparr>img_folder = output_folder, img_source = input_file, img_angle = angle,
             img_data = log_transform arr, img_aspect = of_int w / of_int ypx,
             img_vmin = vmin, img_vmax = vmax\<rparr>)"

text \<open>
  The loop over the angles. It returns the figures saved so far and the exception that ended
  it, if any: a figure saved for an earlier angle stays on disk.
\<close>

fun angle_loop ::
  "env \<Rightarrow> string \<Rightarrow> string \<Rightarrow> point3 list \<Rightarrow> int list \<Rightarrow> image list \<Rightarrow> image list \<times> exn option" where
  "angle_loop ev input_file output_folder sp [] saved = (saved, None)"
| "angle_loop ev input_file output_folder sp (angle # angles) saved =
     (case angle_image input_file output_folder sp angle of
        Inl e \<Rightarrow> (saved, Some e)
      | Inr img \<Rightarrow>
          (case savefig ev img of
             Some e \<Rightarrow> (saved, Some e)
           | None \<Rightarrow> angle_loop ev input_file output_folder sp angles (saved @ [img])))"

definition default_angles :: "int list" where
  "default_angles = [0, 45, 90, 135]"

definition process_tree :: "env \<Rightarrow> string \<Rightarrow> string \<Rightarrow> int list \<Rightarrow> image list \<times> exn option" where
  "process_tree ev input_file output_folder angles =
     (case mkdir ev output_folder of Some e \<Rightarrow> ([], Some e) | None \<Rightarrow>
      case las_read ev input_file of Inl e \<Rightarrow> ([], Some e) | Inr l \<Rightarrow>
      let points = las2numpy l in
      case offset points of Inl e \<Rightarrow> ([], Some e) | Inr o3 \<Rightarrow>
      let shifted_points = shift_points points o3 in
        angle_loop ev input_file output_folder shifted_points angles [])"

subsection \<open>Batch orchestrator\<close>

text \<open>
  \<^verbatim>\<open>process_file_wrapper\<close>: the \<^verbatim>\<open>except Exception\<close> clause turns any exception of
  \<open>process_tree\<close> into the result False and one error line naming the file and the
  exception. The outcome of a task records the result, the figures saved and the line logged
  while it ran: the error line, or the line \<^verbatim>\<open>Processed: file\<close> that \<open>process_tree\<close> logs
  at its end.
\<close>

datatype log_line = Log_error string exn | Log_info string

record outcome =
  ok :: bool
  written :: "image list"
  logged :: "log_line list"

definition process_file_wrapper :: "env \<Rightarrow> string \<times> string \<Rightarrow> outcome" where
  "process_file_wrapper ev args =
     (case args of (file, output_path) \<Rightarrow>
      case process_tree ev file output_path default_angles of
        (imgs, None) \<Rightarrow> \<lparr>ok = True, written = imgs, logged = [Log_info file]\<rparr>
      | (imgs, Some e) \<Rightarrow> \<lparr>ok = False, written = imgs, logged = [Log_error file e]\<rparr>)"

text \<open>
  Discovery. \<^verbatim>\<open>glob('*.las')\<close> keeps the entries of a directory whose name ends in
  \<^verbatim>\<open>.las\<close> (compared case-sensitively, as on POSIX systems), files and directories alike,
  in directory order; \<open>/\<close> joins a directory and a name.
\<close>

definition ends_with :: "string \<Rightarrow> string \<Rightarrow> bool" where
  "ends_with suf name = (length suf \<le> length name \<and> drop (length name - length suf) name = suf)"

definition glob_suffix :: "string \<Rightarrow> string \<Rightarrow> (string \<times> fsnode) list \<Rightarrow> string list" where
  "glob_suffix suf dir entries = map (\<lambda>(name, _). dir @ ''/'' @ name) (filter (\<lambda>(name, _). ends_with suf name) entries)"

definition las_files :: "string \<Rightarrow> (string \<times> fsnode) list \<Rightarrow> string list" where
  "las_files dir entries = glob_suffix ''.las'' dir entries @ glob_suffix ''.laz'' dir entries"

fun is_dir :: "fsnode \<Rightarrow> bool" where
  "is_dir (Dir _) = True"
| "is_dir File = False"

fun entries_of :: "fsnode \<Rightarrow> (string \<times> fsnode) list" where
  "entries_of (Dir es) = es"
| "entries_of File = []"

text \<open>
  Lines 174 to 199: the task list, or FileNotFoundError when a directory without
  subdirectories holds no point-cloud file.
\<close>

definition collect_tasks ::
  "string \<Rightarrow> string \<Rightarrow> (string \<times> fsnode) list \<Rightarrow> exn + (string \<times> string) list" where
  "collect_tasks input_path output_path entries =
     (let species_folders = filter (\<lambda>(name, d). is_dir d) entries in
      if species_folders = [] then
        (let fl = las_files input_path entries in
         if fl \<noteq> [] then Inr (map (\<lambda>file. (file, output_path)) fl)
         else Inl FileNotFoundError)
      else
        Inr (concat (map (\<lambda>(name, d).
               map (\<lambda>file. (file, output_path @ ''/'' @ name))
                   (las_files (input_path @ ''/'' @ name) (entries_of d)))
             species_folders)))"

text \<open>
  \<^verbatim>\<open>Pool(n_workers)\<close> raises ValueError for fewer than one process; \<^verbatim>\<open>pool.map\<close> returns
  the results of the wrapper in the order of the tasks.
\<close>

definition pool_map :: "int \<Rightarrow> ('a \<Rightarrow> 'b) \<Rightarrow> 'a list \<Rightarrow> exn + 'b list" where
  "pool_map n_workers f tasks = (if n_workers < 1 then Inl ValueError else Inr (map f tasks))"

record report =
  successful :: nat
  total :: nat
  outcomes :: "outcome list"

definition main :: "env \<Rightarrow> string \<Rightarrow> string \<Rightarrow> int option \<Rightarrow> exn + report" where
  "main ev input_path output_path n_workers_arg =
     (case fs ev input_path of
        None \<Rightarrow> Inl FileNotFoundError
      | Some node \<Rightarrow>
          if \<not> is_dir node then Inl NotADirectoryError
          else
            let n_workers = (case n_workers_arg of None \<Rightarrow> cpu_count ev | Some n \<Rightarrow> n) in
            case collect_tasks input_path output_path (entries_of node) of
              Inl e \<Rightarrow> Inl e
            | Inr all_tasks \<Rightarrow>
                if all_tasks = [] then Inl FileNotFoundError
                else
                  (case pool_map n_workers (process_file_wrapper ev) all_tasks of
                     Inl e \<Rightarrow> Inl e
                   | Inr results \<Rightarrow>
                       Inr \<lparr>successful = sum_list (map (\<lambda>r. if ok r then 1 else 0) results),
                            total = length all_tasks,
                            outcomes = results\<rparr>))"

text \<open>
  The discovery rule as the specification words it, for comparison with \<open>collect_tasks\<close>:
  when the input directory has subdirectories, the point-cloud files (names ending in
  \<^verbatim>\<open>.las\<close> or \<^verbatim>\<open>.laz\<close>) of each subdirectory; otherwise those directly in it.
\<close>

definition point_cloud_files :: "string \<Rightarrow> (string \<times> fsnode) list \<Rightarrow> string list" where
  "point_cloud_files dir entries =
     map (\<lambda>(name, _). dir @ ''/'' @ name)
       (filter (\<lambda>(name, _). ends_with ''.las'' name \<or> ends_with ''.laz'' name) entries)"

definition spec_discovered :: "string \<Rightarrow> (string \<times> fsnode) list \<Rightarrow> string list" where
  "spec_discovered input_path entries =
     (if list_ex (\<lambda>(name, d). is_dir d) entries then
        concat (map (\<lambda>(name, d). if is_dir d then
                       point_cloud_files (input_path @ ''/'' @ name) (entries_of d) else [])
                  entries)
      else point_cloud_files input_path entries)"

subsection \<open>The bin edges in binary64\<close>

text \<open>
  A binary64 number is the rational it denotes. \<open>rnd64\<close> rounds a rational to the nearest
  number with a 53-bit significand, ties to the even significand; the exponent range is not
  bounded, so overflow and subnormal numbers are not modelled (none occurs below). Each
  arithmetic operation of the program is the exact operation followed by \<open>rnd64\<close>; the
  square root is rounded correctly: for a scaled argument \<open>m\<close> with integer root \<open>r\<close> of 54
  bits, the root lies strictly between \<open>r\<close> and \<open>r + 1\<close> unless \<open>m = r\<^sup>2\<close>, and every number
  strictly between them rounds like \<open>r + 1/2\<close>.
\<close>

definition pow2 :: "int \<Rightarrow> rat" where
  "pow2 e = (if 0 \<le> e then 2 ^ nat e else 1 / 2 ^ nat (- e))"

function bit_length :: "int \<Rightarrow> int" where
  "bit_length n = (if 0 < n then 1 + bit_length (n div 2) else 0)"
  by pat_completeness auto
termination
  by (relation "measure nat") auto

declare bit_length.simps [simp del]

definition ilog2 :: "rat \<Rightarrow> int" where
  "ilog2 q =
     (case quotient_of \<bar>q\<bar> of (n, d) \<Rightarrow>
        let e0 = bit_length n - bit_length d
        in if pow2 e0 \<le> \<bar>q\<bar> then e0 else e0 - 1)"

definition round_half_even :: "rat \<Rightarrow> int" where
  "round_half_even x =
     (let f = \<lfloor>x\<rfloor>; r = x - of_int f
      in if r < 1 / 2 then f else if 1 / 2 < r then f + 1 else if even f then f else f + 1)"

definition rnd64 :: "rat \<Rightarrow> rat" where
  "rnd64 q = (if q = 0 then 0
     else let u = pow2 (ilog2 q - 52) in of_int (round_half_even (q / u)) * u)"

definition fadd :: "rat \<Rightarrow> rat \<Rightarrow> rat" where "fadd a b = rnd64 (a + b)"
definition fsub :: "rat \<Rightarrow> rat \<Rightarrow> rat" where "fsub a b = rnd64 (a - b)"
definition fmul :: "rat \<Rightarrow> rat \<Rightarrow> rat" where "fmul a b = rnd64 (a * b)"
definition fdiv :: "rat \<Rightarrow> rat \<Rightarrow> rat" where "fdiv a b = rnd64 (a / b)"

fun isqrt_bits :: "nat \<Rightarrow> int \<Rightarrow> int \<Rightarrow> int" where
  "isqrt_bits 0 n r = r"
| "isqrt_bits (Suc k) n r =
     (if (r + 2 ^ k) * (r + 2 ^ k) \<le> n then isqrt_bits k n (r + 2 ^ k) else isqrt_bits k n r)"

definition isqrt :: "int \<Rightarrow> int" where
  "isqrt n = isqrt_bits (nat (bit_length n)) n 0"

definition fsqrt :: "rat \<Rightarrow> rat" where
  "fsqrt q = (if q \<le> 0 then 0
     else let h = ilog2 q div 2;
              m = q * pow2 (106 - 2 * h);
              r = isqrt \<lfloor>m\<rfloor>;
              v = (if of_int (r * r) = m then of_int r else of_int r + 1 / 2)
          in rnd64 (v * pow2 (h - 53)))"

text \<open>
  Lines 90 to 106 again, with rounded operations: \<^verbatim>\<open>np.arange\<close> computes the length from
  the rounded quotient, and element \<open>i\<close> as \<open>start + i * delta\<close> with two roundings.
\<close>

definition arange64 :: "rat \<Rightarrow> rat \<Rightarrow> rat \<Rightarrow> exn + rat list" where
  "arange64 start stop step =
     (if step = 0 then (if fsub stop start = 0 then Inl ValueError else Inl OverflowError)
      else
        (let len = nat \<lceil>fdiv (fsub stop start) step\<rceil>;
             next = fadd start step;
             delta = fsub next start
         in Inr (map (\<lambda>i. if i = 0 then start else if i = 1 then next
                           else fadd start (fmul (of_nat i) delta)) [0..<len])))"

definition extents64 :: "(rat \<times> rat) list \<Rightarrow> exn + ((rat \<times> rat) \<times> (rat \<times> rat) \<times> rat \<times> rat)" where
  "extents64 projected_points =
     (case np_min (map fst projected_points) of Inl e \<Rightarrow> Inl e | Inr x0 \<Rightarrow>
      case np_max (map fst projected_points) of Inl e \<Rightarrow> Inl e | Inr x1 \<Rightarrow>
      case np_min (map snd projected_points) of Inl e \<Rightarrow> Inl e | Inr y0 \<Rightarrow>
      case np_max (map snd projected_points) of Inl e \<Rightarrow> Inl e | Inr y1 \<Rightarrow>
        Inr ((x0, x1), (y0, y1), fsub x1 x0, fsub y1 y0))"

definition point_density64 :: "rat \<Rightarrow> rat \<Rightarrow> nat \<Rightarrow> rat" where
  "point_density64 xl yl n = fsqrt (fdiv (fmul xl yl) (of_nat n))"

definition bin_edges64 :: "rat \<times> rat \<Rightarrow> rat \<Rightarrow> exn + rat list" where
  "bin_edges64 ext pd = arange64 (fst ext) (fadd (snd ext) pd) pd"

definition density_grid64 :: "(rat \<times> rat) list \<Rightarrow> exn + nat list list" where
  "density_grid64 projected_points =
     (case extents64 projected_points of Inl e \<Rightarrow> Inl e | Inr (xext, yext, xl, yl) \<Rightarrow>
      let pd = point_density64 xl yl (length projected_points) in
      case bin_edges64 xext pd of Inl e \<Rightarrow> Inl e | Inr xbins \<Rightarrow>
      case bin_edges64 yext pd of Inl e \<Rightarrow> Inl e | Inr ybins \<Rightarrow>
        hist2d projected_points xbins ybins)"

text \<open>
  Nine points with integer coordinates: the cloud \<open>(0, 0, 1)\<close>, \<open>(-1, 0, 0)\<close> and seven
  times \<open>(0, 0, 0)\<close>, and its projection at angle 0.
\<close>

definition cloud9_3d :: "point3 list" where
  "cloud9_3d = [(0, 0, 1), (- 1, 0, 0), (0, 0, 0), (0, 0, 0), (0, 0, 0), (0, 0, 0), (0, 0, 0),
                (0, 0, 0), (0, 0, 0)]"

definition cloud9 :: "(rat \<times> rat) list" where
  "cloud9 = [(0, 1), (- 1, 0), (0, 0), (0, 0), (0, 0), (0, 0), (0, 0), (0, 0), (0, 0)]"

section \<open>Properties of the geometry utilities and the projector\<close>

lemma argmax_scan_spec:
  assumes "pre \<noteq> []" "i = length pre" "bi < i" "best = pre ! bi"
    and "\<forall>x \<in> set pre. x \<le> best" and "\<forall>j < bi. pre ! j < best"
  shows "argmax_scan best bi i xs < length (pre @ xs)
    \<and> (\<forall>x \<in> set (pre @ xs). x \<le> (pre @ xs) ! argmax_scan best bi i xs)
    \<and> (\<forall>j < argmax_scan best bi i xs. (pre @ xs) ! j < (pre @ xs) ! argmax_scan best bi i xs)"
  using assms
proof (induction xs arbitrary: pre i bi best)
  case Nil
  then show ?case by simp
next
  case (Cons x xs)
  let ?pre = "pre @ [x]"
  show ?case
  proof (cases "best < x")
    case True
    have a: "\<forall>y \<in> set ?pre. y \<le> x"
      using Cons.prems(5) True by auto
    have b: "\<forall>j < i. ?pre ! j < x"
    proof (intro allI impI)
      fix j assume "j < i"
      then have "?pre ! j = pre ! j" and "pre ! j \<in> set pre"
        using Cons.prems(2) by (simp_all add: nth_append)
      then show "?pre ! j < x" using Cons.prems(5) True by fastforce
    qed
    have "argmax_scan x i (Suc i) xs < length (?pre @ xs)
      \<and> (\<forall>y \<in> set (?pre @ xs). y \<le> (?pre @ xs) ! argmax_scan x i (Suc i) xs)
      \<and> (\<forall>j < argmax_scan x i (Suc i) xs. (?pre @ xs) ! j < (?pre @ xs) ! argmax_scan x i (Suc i) xs)"
      using a b Cons.prems(2)
      by (intro Cons.IH) (simp_all add: nth_append)
    then show ?thesis using True by simp
  next
    case False
    have a: "\<forall>y \<in> set ?pre. y \<le> best"
      using Cons.prems(5) False by auto
    have b: "\<forall>j < bi. ?pre ! j < best"
      using Cons.prems(2,3,6) by (simp add: nth_append)
    have "argmax_scan best bi (Suc i) xs < length (?pre @ xs)
      \<and> (\<forall>y \<in> set (?pre @ xs). y \<le> (?pre @ xs) ! argmax_scan best bi (Suc i) xs)
      \<and> (\<forall>j < argmax_scan best bi (Suc i) xs. (?pre @ xs) ! j < (?pre @ xs) ! argmax_scan best bi (Suc i) xs)"
      using a b Cons.prems(2,3,4)
      by (intro Cons.IH) (simp_all add: nth_append)
    then show ?thesis using False by simp
  qed
qed

lemma argmax_spec:
  assumes "xs \<noteq> []"
  shows "\<exists>i. argmax xs = Inr i \<and> i < length xs
    \<and> (\<forall>x \<in> set xs. x \<le> xs ! i) \<and> (\<forall>j < i. xs ! j < xs ! i)"
proof -
  obtain x rest where xs: "xs = x # rest"
    using assms by (cases xs) auto
  have "argmax_scan x 0 1 rest < length ([x] @ rest)
    \<and> (\<forall>y \<in> set ([x] @ rest). y \<le> ([x] @ rest) ! argmax_scan x 0 1 rest)
    \<and> (\<forall>j < argmax_scan x 0 1 rest. ([x] @ rest) ! j < ([x] @ rest) ! argmax_scan x 0 1 rest)"
    by (rule argmax_scan_spec) simp_all
  then show ?thesis
    by (simp add: xs argmax_def)
qed

text \<open>
  C4. On a non-empty point sequence \<open>find_highest_point\<close> returns the element at some index
  \<open>i\<close>; no element has a larger z-coordinate, and every element before \<open>i\<close> has a strictly
  smaller one, so among the points of maximal z it is the first in input order.
\<close>

theorem find_highest_point_first_max:
  assumes "points \<noteq> []"
  shows "\<exists>i < length points. find_highest_point points = Inr (points ! i)
    \<and> (\<forall>q \<in> set points. zc q \<le> zc (points ! i))
    \<and> (\<forall>j < i. zc (points ! j) < zc (points ! i))"
proof -
  from assms have "map zc points \<noteq> []" by simp
  from argmax_spec [OF this] obtain i where
    i: "argmax (map zc points) = Inr i" "i < length points"
      "\<forall>x \<in> set (map zc points). x \<le> map zc points ! i"
      "\<forall>j < i. map zc points ! j < map zc points ! i"
    by auto
  have "\<forall>q \<in> set points. zc q \<le> zc (points ! i)"
    using i(2,3) by simp
  moreover have "\<forall>j < i. zc (points ! j) < zc (points ! i)"
    using i(2,4) by simp
  ultimately show ?thesis
    using i(1,2) by (auto simp: find_highest_point_def)
qed

theorem find_highest_point_first_max_witness:
  "\<exists>i < length [(0, 0, 1), (1, 1, 3), (2, 2, 3 :: real)].
     find_highest_point [(0, 0, 1), (1, 1, 3), (2, 2, 3)] = Inr ([(0, 0, 1), (1, 1, 3), (2, 2, 3)] ! i)
     \<and> (\<forall>q \<in> set [(0, 0, 1), (1, 1, 3), (2, 2, 3 :: real)]. zc q \<le> zc ([(0, 0, 1), (1, 1, 3), (2, 2, 3)] ! i))
     \<and> (\<forall>j < i. zc ([(0, 0, 1), (1, 1, 3), (2, 2, 3 :: real)] ! j) < zc ([(0, 0, 1), (1, 1, 3), (2, 2, 3)] ! i))"
  using find_highest_point_first_max [of "[(0, 0, 1), (1, 1, 3), (2, 2, 3)]"] by simp

lemma project_to_plane_length: "length (project_to_plane points u v) = length points"
  by (simp add: project_to_plane_def column_stack_def dot_rows_def)

lemma project_to_plane_nth:
  "i < length points \<Longrightarrow>
     project_to_plane points u v ! i = (dot3 (points ! i) u, dot3 (points ! i) v)"
  by (simp add: project_to_plane_def column_stack_def dot_rows_def)

text \<open>
  C2. \<open>project_to_plane\<close> on the array stored at address \<open>a\<close> returns a new array with one
  row per input row; row \<open>i\<close> is \<open>(p\<^sub>i \<sqdot> u, p\<^sub>i \<sqdot> v)\<close> for the \<open>i\<close>-th input row, so the order is
  kept; every array that was in the store before the call, the input among them, is the same
  after it.
\<close>

theorem project_to_plane_rowwise:
  assumes "a < length st" and "st ! a = Arr3 ps"
  shows "\<exists>st' r out. project_to_plane_st st a u v = Inr (st', r)
    \<and> r < length st' \<and> st' ! r = Arr2 out
    \<and> out = project_to_plane ps u v
    \<and> length out = length ps
    \<and> (\<forall>i < length ps. out ! i = (dot3 (ps ! i) u, dot3 (ps ! i) v))
    \<and> st' ! a = Arr3 ps
    \<and> (\<forall>b < length st. st' ! b = st ! b)"
  using assms
  by (simp add: project_to_plane_st_def alloc_def nth_append
      project_to_plane_length project_to_plane_nth)

theorem project_to_plane_rowwise_witness:
  "\<exists>st' r out. project_to_plane_st [Arr3 [(1, 2, 3), (4, 5, 6)]] 0 (1, 0, 0) (0, 0, 1) = Inr (st', r)
    \<and> r < length st' \<and> st' ! r = Arr2 out
    \<and> out = project_to_plane [(1, 2, 3), (4, 5, 6)] (1, 0, 0) (0, 0, 1)
    \<and> length out = length [(1, 2, 3), (4, 5, 6 :: real)]
    \<and> (\<forall>i < length [(1, 2, 3), (4, 5, 6 :: real)].
          out ! i = (dot3 ([(1, 2, 3), (4, 5, 6)] ! i) (1, 0, 0), dot3 ([(1, 2, 3), (4, 5, 6)] ! i) (0, 0, 1)))
    \<and> st' ! 0 = Arr3 [(1, 2, 3), (4, 5, 6)]
    \<and> (\<forall>b < length [Arr3 [(1, 2, 3), (4, 5, 6)]]. st' ! b = [Arr3 [(1, 2, 3), (4, 5, 6)]] ! b)"
  using project_to_plane_rowwise [of 0 "[Arr3 [(1, 2, 3), (4, 5, 6)]]" "[(1, 2, 3), (4, 5, 6)]" "(1, 0, 0)" "(0, 0, 1)"]
  by simp

text \<open>
  C3. For every angle \<open>a\<close> in degrees, with \<open>t = a \<cdot> \<pi> / 180\<close>, \<open>get_plane a\<close> is the triple
  \<open>u = (cos t, sin t, 0)\<close>, \<open>v = (0, 0, 1)\<close>, \<open>n = (- sin t, cos t, 0)\<close>; \<open>u\<close> and \<open>n\<close> have length 1
  and are orthogonal to each other (and to \<open>v\<close>).
\<close>

theorem get_plane_orthonormal:
  "get_plane a = ((cos (a * pi / 180), sin (a * pi / 180), 0), (0, 0, 1),
                  (- sin (a * pi / 180), cos (a * pi / 180), 0))
   \<and> norm3 (fst (get_plane a)) = 1
   \<and> norm3 (snd (snd (get_plane a))) = 1
   \<and> dot3 (fst (get_plane a)) (snd (snd (get_plane a))) = 0
   \<and> fst (snd (get_plane a)) = (0, 0, 1)
   \<and> dot3 (fst (get_plane a)) (fst (snd (get_plane a))) = 0
   \<and> dot3 (snd (snd (get_plane a))) (fst (snd (get_plane a))) = 0"
proof -
  have sc: "sin (a * pi / 180) * sin (a * pi / 180) + cos (a * pi / 180) * cos (a * pi / 180) = 1"
    using sin_cos_squared_add [of "a * pi / 180"] by (simp add: power2_eq_square)
  have cs: "cos (a * pi / 180) * cos (a * pi / 180) + sin (a * pi / 180) * sin (a * pi / 180) = 1"
    using sc by (simp add: add.commute)
  show ?thesis
    by (simp add: get_plane_def radians_def norm3_def Let_def sc cs)
qed

section \<open>Properties of the pipeline of one file\<close>

lemma shift_points_zc:
  "offset points = Inr o3 \<Longrightarrow> map zc (shift_points points o3) = map zc points"
proof -
  assume "offset points = Inr o3"
  then obtain ox oy where o3: "o3 = (ox, oy, 0)"
    by (auto simp: offset_def split: sum.splits)
  have "zc (sub3 p (ox, oy, 0)) = zc p" for p
    by (cases p) simp
  then show ?thesis
    by (simp add: shift_points_def o3)
qed

lemma projection_snd: "map snd (projection sp angle) = map zc sp"
proof -
  have "dot3 p (0, 0, 1) = zc p" for p
    by (cases p) simp
  then show ?thesis
    by (simp add: projection_def get_plane_def Let_def project_to_plane_def
        column_stack_def dot_rows_def)
qed

text \<open>
  C10. For a point cloud that has a highest point, and every angle, the second coordinates of
  the projected points are, in order, the z-coordinates of the shifted points, which are the
  z-coordinates of the points of the file; so two angles give the same second coordinates.
\<close>

theorem projection_height_invariant:
  assumes "offset points = Inr o3"
  shows "map snd (projection (shift_points points o3) angle) = map zc (shift_points points o3)
    \<and> map zc (shift_points points o3) = map zc points
    \<and> map snd (projection (shift_points points o3) angle)
        = map snd (projection (shift_points points o3) angle')"
  using shift_points_zc [OF assms] by (simp add: projection_snd)

theorem projection_height_invariant_witness:
  "map snd (projection (shift_points [(1, 2, 3), (4, 5, 6)] (4, 5, 0)) 45)
      = map zc (shift_points [(1, 2, 3), (4, 5, 6)] (4, 5, 0))
    \<and> map zc (shift_points [(1, 2, 3), (4, 5, 6)] (4, 5, 0)) = map zc [(1, 2, 3), (4, 5, 6)]
    \<and> map snd (projection (shift_points [(1, 2, 3), (4, 5, 6)] (4, 5, 0)) 45)
        = map snd (projection (shift_points [(1, 2, 3), (4, 5, 6)] (4, 5, 0)) 90)"
proof -
  have "offset [(1, 2, 3), (4, 5, 6)] = Inr (4, 5, 0)"
    by (simp add: offset_def find_highest_point_def argmax_def)
  from projection_height_invariant [OF this] show ?thesis .
qed





section \<open>Properties of the renderer\<close>

lemma np_max_Max: "xs \<noteq> [] \<Longrightarrow> np_max xs = Inr (Max (set xs))"
proof (cases xs)
  case (Cons a list)
  then show ?thesis
    using Max.set_eq_fold [of a list] by (simp add: np_max_def)
qed simp

lemma np_min_Min: "xs \<noteq> [] \<Longrightarrow> np_min xs = Inr (Min (set xs))"
proof (cases xs)
  case (Cons a list)
  then show ?thesis
    using Min.set_eq_fold [of a list] by (simp add: np_min_def)
qed simp









lemma ln4: "2 * ln 2 < ln (5::real)"
proof -
  have "ln (2 * 2 :: real) = ln 2 + ln 2" by (rule ln_mult_pos) simp_all
  moreover have "ln (2 * 2 :: real) < ln 5" by (subst ln_less_cancel_iff) simp_all
  ultimately show ?thesis by simp
qed

lemma clamp_above: "lo \<le> x \<Longrightarrow> hi < x \<Longrightarrow> clamp lo hi x = hi"
  by (simp add: clamp_def)

lemma clamp_inside: "lo \<le> x \<Longrightarrow> x \<le> hi \<Longrightarrow> clamp lo hi x = x"
  by (simp add: clamp_def)

text \<open>
  The grey level, which divides by the width of the grid's own window, is not monotone in the
  same sense: raising one count of \<open>[[1, 1]]\<close> to 4 makes the other cell lighter.
\<close>

lemma grey_level_not_monotone:
  "grey_level [[1, 1]] 0 0 = Inr 1 \<and> (\<exists>a. grey_level [[1, 4]] 0 0 = Inr a \<and> a < 1)"
proof -
  have l2: "0 < ln (2::real)" by simp
  have l5: "ln (2::real) < ln 5" by (subst ln_less_cancel_iff) simp_all
  have c1: "clamp (- 1) (ln 2 * 0.5) (ln 2) = ln 2 * 0.5"
  proof (rule clamp_above)
    show "- 1 \<le> ln (2::real)" using l2 by linarith
    show "ln 2 * 0.5 < ln (2::real)" using l2 by linarith
  qed
  have c2: "clamp (- 1) (ln 5 * 0.5) (ln 2) = ln 2"
  proof (rule clamp_inside)
    show "- 1 \<le> ln (2::real)" using l2 by linarith
    show "ln 2 \<le> ln (5::real) * 0.5" using ln4 by linarith
  qed
  have w1: "color_window [[1, 1]] = Inr (- 1, ln 2 * 0.5)"
    by (simp add: color_window_def grid_max_def np_max_def log_transform_def)
  have w2: "color_window [[1, 4]] = Inr (- 1, ln 5 * 0.5)"
    using l5 by (simp add: color_window_def grid_max_def np_max_def log_transform_def max_def)
  have d: "ln 2 * 0.5 - (- 1) \<noteq> (0::real)" using l2 by linarith
  have a: "grey_level [[1, 1]] 0 0 = Inr 1"
    unfolding grey_level_def w1 using c1 d by (simp add: log_transform_def)
  have "grey_level [[1, 4]] 0 0 = Inr ((ln 2 - (- 1)) / (ln 5 * 0.5 - (- 1)))"
    unfolding grey_level_def w2 using c2 by (simp add: log_transform_def)
  moreover have "(ln 2 - (- 1)) / (ln 5 * 0.5 - (- 1)) < (1::real)"
  proof -
    have "0 < ln 5 * 0.5 - (- 1 :: real)" using l2 ln4 by linarith
    moreover have "ln 2 - (- 1) < ln 5 * 0.5 - (- 1 :: real)" using ln4 by linarith
    ultimately show ?thesis by (simp only: divide_less_eq_1_pos)
  qed
  ultimately show ?thesis using a by simp
qed

section \<open>Degenerate extents\<close>










lemma angle_loop_first_fails:
  "angle_image f out sp a = Inl e \<Longrightarrow> angle_loop ev f out sp (a # as) saved = (saved, Some e)"
  by simp




section \<open>Properties of the batch orchestrator\<close>

lemma las_files_empty:
  "las_files dir entries = [] \<longleftrightarrow> point_cloud_files dir entries = []"
  by (auto simp: las_files_def glob_suffix_def point_cloud_files_def filter_empty_conv)

lemma collect_tasks_empty:
  "(collect_tasks input_path output_path entries = Inl FileNotFoundError
     \<or> collect_tasks input_path output_path entries = Inr [])
   \<longleftrightarrow> spec_discovered input_path entries = []"
proof (cases "filter (\<lambda>(name, d). is_dir d) entries = []")
  case True
  then have "\<not> list_ex (\<lambda>(name, d). is_dir d) entries"
    by (auto simp: filter_empty_conv list_ex_iff)
  then show ?thesis
    using True las_files_empty [of input_path entries]
    by (auto simp: collect_tasks_def spec_discovered_def Let_def)
next
  case False
  then have ex: "list_ex (\<lambda>(name, d). is_dir d) entries"
    by (auto simp: filter_empty_conv list_ex_iff)
  have "collect_tasks input_path output_path entries = Inr [] \<longleftrightarrow>
      (\<forall>(name, d) \<in> set entries. is_dir d \<longrightarrow> las_files (input_path @ ''/'' @ name) (entries_of d) = [])"
    using False by (auto simp: collect_tasks_def Let_def)
  also have "\<dots> \<longleftrightarrow> spec_discovered input_path entries = []"
    using ex by (auto simp: spec_discovered_def las_files_empty)
  finally show ?thesis
    using False by (auto simp: collect_tasks_def Let_def)
qed

lemma collect_tasks_error:
  "collect_tasks input_path output_path entries = Inl e \<Longrightarrow> e = FileNotFoundError"
  by (auto simp: collect_tasks_def Let_def split: if_splits)

lemma main_started:
  assumes "fs ev input_path = Some node" and "is_dir node"
    and "collect_tasks input_path output_path (entries_of node) = Inr tasks" and "tasks \<noteq> []"
  shows "main ev input_path output_path nw =
     (if (case nw of None \<Rightarrow> cpu_count ev | Some n \<Rightarrow> n) < 1 then Inl ValueError
      else Inr \<lparr>successful = sum_list (map (\<lambda>r. if ok r then 1 else 0) (map (process_file_wrapper ev) tasks)),
                total = length tasks,
                outcomes = map (process_file_wrapper ev) tasks\<rparr>)"
  using assms by (simp add: main_def pool_map_def Let_def)

lemma wrapper_error:
  "process_tree ev file out default_angles = (imgs, Some e) \<Longrightarrow>
     process_file_wrapper ev (file, out) = \<lparr>ok = False, written = imgs, logged = [Log_error file e]\<rparr>"
  by (simp add: process_file_wrapper_def)

lemma wrapper_ok:
  "process_tree ev file out default_angles = (imgs, None) \<Longrightarrow> ok (process_file_wrapper ev (file, out))"
  by (simp add: process_file_wrapper_def)

lemma count_ok: "sum_list (map (\<lambda>r. if ok r then 1 else 0) rs) = length (filter ok rs)"
  by (induction rs) simp_all

text \<open>
  C5. The wrapper turns every exception of \<open>process_tree\<close> into the result False and an
  error line with the file and the exception, and a normal end into True. When the input
  passes validation and there is at least one worker, \<open>main\<close> returns a report whatever the
  tasks did: it holds the wrapper's result of every task, in task order, the number of tasks
  whose wrapper returned True, and the number of tasks.
\<close>

theorem task_exceptions_contained:
  assumes "fs ev input_path = Some node" and "is_dir node"
    and "collect_tasks input_path output_path (entries_of node) = Inr tasks" and "tasks \<noteq> []"
    and "1 \<le> (case nw of None \<Rightarrow> cpu_count ev | Some n \<Rightarrow> n)"
  shows "\<exists>r. main ev input_path output_path nw = Inr r
     \<and> outcomes r = map (process_file_wrapper ev) tasks
     \<and> successful r = length (filter (\<lambda>t. ok (process_file_wrapper ev t)) tasks)
     \<and> total r = length tasks
     \<and> (\<forall>t \<in> set tasks. \<forall>imgs e. process_tree ev (fst t) (snd t) default_angles = (imgs, Some e) \<longrightarrow>
           process_file_wrapper ev t = \<lparr>ok = False, written = imgs, logged = [Log_error (fst t) e]\<rparr>)
     \<and> (\<forall>t \<in> set tasks. \<forall>imgs. process_tree ev (fst t) (snd t) default_angles = (imgs, None) \<longrightarrow>
           ok (process_file_wrapper ev t))"
proof -
  let ?r = "\<lparr>successful = sum_list (map (\<lambda>r. if ok r then 1 else 0) (map (process_file_wrapper ev) tasks)),
             total = length tasks, outcomes = map (process_file_wrapper ev) tasks\<rparr>"
  have m: "main ev input_path output_path nw = Inr ?r"
    using main_started [OF assms(1-4), of nw] assms(5) by simp
  have "successful ?r = length (filter ok (map (process_file_wrapper ev) tasks))"
    by (simp only: count_ok report.simps)
  then have s: "successful ?r = length (filter (\<lambda>t. ok (process_file_wrapper ev t)) tasks)"
    by (simp add: filter_map comp_def)
  have e: "\<forall>t \<in> set tasks. \<forall>imgs e. process_tree ev (fst t) (snd t) default_angles = (imgs, Some e) \<longrightarrow>
           process_file_wrapper ev t = \<lparr>ok = False, written = imgs, logged = [Log_error (fst t) e]\<rparr>"
    using wrapper_error by (metis prod.collapse)
  have k: "\<forall>t \<in> set tasks. \<forall>imgs. process_tree ev (fst t) (snd t) default_angles = (imgs, None) \<longrightarrow>
           ok (process_file_wrapper ev t)"
    using wrapper_ok by (metis prod.collapse)
  show ?thesis
    using m s e k by (intro exI [of _ ?r] conjI) simp_all
qed

theorem task_exceptions_contained_witness:
  "\<exists>r. main \<lparr>mkdir = (\<lambda>_. None), las_read = (\<lambda>_. Inl (External ''unreadable'')),
               savefig = (\<lambda>_. None),
               fs = (\<lambda>p. if p = ''in'' then Some (Dir [(''a.las'', File), (''b.laz'', File)]) else None),
               cpu_count = 4\<rparr> ''in'' ''out'' None = Inr r
     \<and> successful r = 0 \<and> total r = 2"
proof -
  let ?ev = "\<lparr>mkdir = (\<lambda>_. None), las_read = (\<lambda>_. Inl (External ''unreadable'')),
               savefig = (\<lambda>_. None),
               fs = (\<lambda>p. if p = ''in'' then Some (Dir [(''a.las'', File), (''b.laz'', File)]) else None),
               cpu_count = 4\<rparr>"
  let ?node = "Dir [(''a.las'', File), (''b.laz'', File)]"
  let ?tasks = "[(''in/a.las'', ''out''), (''in/b.laz'', ''out'')]"
  have 1: "fs ?ev ''in'' = Some ?node" by simp
  have 2: "is_dir ?node" by simp
  have 3: "collect_tasks ''in'' ''out'' (entries_of ?node) = Inr ?tasks"
    by (simp add: collect_tasks_def las_files_def glob_suffix_def ends_with_def)
  have 4: "?tasks \<noteq> []" by simp
  have 5: "1 \<le> (case None of None \<Rightarrow> cpu_count ?ev | Some n \<Rightarrow> n)" by simp
  have "\<not> ok (process_file_wrapper ?ev t)" for t
    by (cases t) (simp add: process_file_wrapper_def process_tree_def)
  then show ?thesis
    using task_exceptions_contained [OF 1 2 3 4 5] by auto
qed

text \<open>
  C6, as stated, fails in its last part: with an input directory holding one point-cloud file
  and a worker count of 0, nothing of the three conditions holds, and \<open>main\<close> ends with the
  ValueError of \<^verbatim>\<open>Pool(0)\<close> before any task runs.
\<close>

theorem main_zero_workers:
  "fs \<lparr>mkdir = (\<lambda>_. None), las_read = (\<lambda>_. Inl (External ''unreadable'')), savefig = (\<lambda>_. None),
       fs = (\<lambda>p. if p = ''in'' then Some (Dir [(''t.las'', File)]) else None), cpu_count = 4\<rparr> ''in''
     = Some (Dir [(''t.las'', File)])
   \<and> is_dir (Dir [(''t.las'', File)])
   \<and> spec_discovered ''in'' (entries_of (Dir [(''t.las'', File)])) = [''in/t.las'']
   \<and> main \<lparr>mkdir = (\<lambda>_. None), las_read = (\<lambda>_. Inl (External ''unreadable'')), savefig = (\<lambda>_. None),
       fs = (\<lambda>p. if p = ''in'' then Some (Dir [(''t.las'', File)]) else None), cpu_count = 4\<rparr>
       ''in'' ''out'' (Some 0) = Inl ValueError"
  by (simp add: main_def collect_tasks_def las_files_def glob_suffix_def ends_with_def
      pool_map_def spec_discovered_def point_cloud_files_def)

text \<open>
  C6, amended. \<open>main\<close> ends with FileNotFoundError or NotADirectoryError exactly when the
  input path does not exist, is not a directory, or no file ending in \<^verbatim>\<open>.las\<close> or
  \<^verbatim>\<open>.laz\<close> is discovered (in the subdirectories when there are subdirectories, directly
  in the directory otherwise). In every other case, with a worker count of at least 1
  (\<open>n_workers\<close>, or the processor count when it is not given) the wrapper is run on every
  discovered task, and with a smaller worker count \<open>main\<close> ends with ValueError.
\<close>

theorem main_input_validation:
  "((main ev input_path output_path nw = Inl FileNotFoundError
      \<or> main ev input_path output_path nw = Inl NotADirectoryError)
     \<longleftrightarrow> (fs ev input_path = None
          \<or> (\<exists>node. fs ev input_path = Some node
                \<and> (\<not> is_dir node \<or> spec_discovered input_path (entries_of node) = []))))
   \<and> (\<forall>node. fs ev input_path = Some node \<and> is_dir node
          \<and> spec_discovered input_path (entries_of node) \<noteq> [] \<longrightarrow>
        (if 1 \<le> (case nw of None \<Rightarrow> cpu_count ev | Some n \<Rightarrow> n)
         then \<exists>tasks r. collect_tasks input_path output_path (entries_of node) = Inr tasks
                \<and> tasks \<noteq> [] \<and> main ev input_path output_path nw = Inr r
                \<and> outcomes r = map (process_file_wrapper ev) tasks
         else main ev input_path output_path nw = Inl ValueError))"
proof (cases "fs ev input_path")
  case None
  then show ?thesis by (simp add: main_def)
next
  case (Some node)
  show ?thesis
  proof (cases "is_dir node")
    case False
    with Some show ?thesis by (simp add: main_def)
  next
    case True
    show ?thesis
    proof (cases "spec_discovered input_path (entries_of node) = []")
      case empty: True
      then have "collect_tasks input_path output_path (entries_of node) = Inl FileNotFoundError
          \<or> collect_tasks input_path output_path (entries_of node) = Inr []"
        by (simp add: collect_tasks_empty)
      then have "main ev input_path output_path nw = Inl FileNotFoundError"
        using Some True by (auto simp: main_def)
      then show ?thesis using Some True empty by simp
    next
      case nonempty: False
      then have ne: "collect_tasks input_path output_path (entries_of node) \<noteq> Inl FileNotFoundError"
          "collect_tasks input_path output_path (entries_of node) \<noteq> Inr []"
        using collect_tasks_empty [of input_path output_path "entries_of node"] by auto
      then obtain tasks where t: "collect_tasks input_path output_path (entries_of node) = Inr tasks"
          "tasks \<noteq> []"
        using collect_tasks_error [of input_path output_path "entries_of node"]
        by (cases "collect_tasks input_path output_path (entries_of node)") auto
      show ?thesis
        using main_started [OF Some True t, of nw] Some True nonempty t
        by (auto split: if_splits)
    qed
  qed
qed

theorem main_input_validation_witness:
  "\<exists>r. main \<lparr>mkdir = (\<lambda>_. None), las_read = (\<lambda>_. Inl (External ''unreadable'')),
               savefig = (\<lambda>_. None),
               fs = (\<lambda>p. if p = ''in'' then Some (Dir [(''Oak'', Dir [(''t.las'', File)])]) else None),
               cpu_count = 4\<rparr> ''in'' ''out'' (Some 2) = Inr r
     \<and> outcomes r = map (process_file_wrapper \<lparr>mkdir = (\<lambda>_. None), las_read = (\<lambda>_. Inl (External ''unreadable'')),
               savefig = (\<lambda>_. None),
               fs = (\<lambda>p. if p = ''in'' then Some (Dir [(''Oak'', Dir [(''t.las'', File)])]) else None),
               cpu_count = 4\<rparr>) [(''in/Oak/t.las'', ''out/Oak'')]"
proof -
  let ?ev = "\<lparr>mkdir = (\<lambda>_. None), las_read = (\<lambda>_. Inl (External ''unreadable'')),
               savefig = (\<lambda>_. None),
               fs = (\<lambda>p. if p = ''in'' then Some (Dir [(''Oak'', Dir [(''t.las'', File)])]) else None),
               cpu_count = 4\<rparr>"
  let ?node = "Dir [(''Oak'', Dir [(''t.las'', File)])]"
  have 1: "fs ?ev ''in'' = Some ?node \<and> is_dir ?node \<and> spec_discovered ''in'' (entries_of ?node) \<noteq> []"
    by (simp add: spec_discovered_def point_cloud_files_def ends_with_def)
  have 2: "collect_tasks ''in'' ''out'' (entries_of ?node) = Inr [(''in/Oak/t.las'', ''out/Oak'')]"
    by (simp add: collect_tasks_def las_files_def glob_suffix_def ends_with_def)
  have 3: "1 \<le> (case Some 2 of None \<Rightarrow> cpu_count ?ev | Some n \<Rightarrow> (n::int))" by simp
  from main_input_validation [of ?ev "''in''" "''out''" "Some 2"] 1 3
  have "\<exists>tasks r. collect_tasks ''in'' ''out'' (entries_of ?node) = Inr tasks
        \<and> tasks \<noteq> [] \<and> main ?ev ''in'' ''out'' (Some 2) = Inr r
        \<and> outcomes r = map (process_file_wrapper ?ev) tasks"
    by (metis (no_types, lifting))
  then show ?thesis using 2 by auto
qed

section \<open>The count grid in exact arithmetic\<close>

lemma heads_tails_total:
  "sum_list [h. (h # t) \<leftarrow> xss] + sum_list (map sum_list [t. (h # t) \<leftarrow> xss])
     = (sum_list (map sum_list xss) :: nat)"
  by (induction xss) (auto split: list.splits)

lemma grid_total_transpose: "grid_total (transpose g) = grid_total g"
proof (induction g rule: transpose.induct)
  case 1
  then show ?case by (simp add: grid_total_def)
next
  case (2 xss)
  then show ?case by (simp add: grid_total_def)
next
  case (3 x xs xss)
  have "grid_total (transpose ((x # xs) # xss))
      = x + sum_list [h. (h # t) \<leftarrow> xss] + grid_total (transpose (xs # [t. (h # t) \<leftarrow> xss]))"
    by (simp add: grid_total_def)
  also have "\<dots> = x + sum_list [h. (h # t) \<leftarrow> xss] + grid_total (xs # [t. (h # t) \<leftarrow> xss])"
    using 3 by simp
  also have "\<dots> = x + sum_list xs + (sum_list [h. (h # t) \<leftarrow> xss] + sum_list (map sum_list [t. (h # t) \<leftarrow> xss]))"
    by (simp add: grid_total_def)
  also have "\<dots> = grid_total ((x # xs) # xss)"
    by (simp only: heads_tails_total) (simp add: grid_total_def)
  finally show ?case .
qed

lemma indicator_row:
  "(\<Sum>b\<leftarrow>[0..<n]. if k = b then 1 else 0 :: nat) = (if k < n then 1 else 0)"
  by (induction n) auto

lemma zero_row: "(\<Sum>b\<leftarrow>xs. 0 :: nat) = 0"
  by (induction xs) auto

lemma count_cells:
  assumes "\<forall>p \<in> set ps. f p < nx \<and> g p < ny"
  shows "(\<Sum>a\<leftarrow>[0..<nx]. \<Sum>b\<leftarrow>[0..<ny]. length (filter (\<lambda>p. f p = a \<and> g p = b) ps)) = length ps"
  using assms
proof (induction ps)
  case Nil
  then show ?case by (simp add: zero_row)
next
  case (Cons p ps)
  have cell: "length (filter (\<lambda>q. f q = a \<and> g q = b) (p # ps))
      = (if f p = a \<and> g p = b then 1 else 0) + length (filter (\<lambda>q. f q = a \<and> g q = b) ps)" for a b
    by simp
  have one: "(\<Sum>a\<leftarrow>[0..<nx]. \<Sum>b\<leftarrow>[0..<ny]. if f p = a \<and> g p = b then 1 else 0 :: nat) = 1"
  proof -
    have "(\<Sum>b\<leftarrow>[0..<ny]. if f p = a \<and> g p = b then 1 else 0 :: nat) = (if f p = a then 1 else 0)" for a
    proof (cases "f p = a")
      case True
      then show ?thesis using indicator_row [of "g p" ny] Cons.prems by simp
    next
      case False
      then show ?thesis by (simp add: zero_row)
    qed
    then show ?thesis using indicator_row [of "f p" nx] Cons.prems by simp
  qed
  have "(\<Sum>a\<leftarrow>[0..<nx]. \<Sum>b\<leftarrow>[0..<ny]. length (filter (\<lambda>q. f q = a \<and> g q = b) (p # ps)))
      = (\<Sum>a\<leftarrow>[0..<nx]. \<Sum>b\<leftarrow>[0..<ny]. if f p = a \<and> g p = b then 1 else 0)
        + (\<Sum>a\<leftarrow>[0..<nx]. \<Sum>b\<leftarrow>[0..<ny]. length (filter (\<lambda>q. f q = a \<and> g q = b) ps))"
    by (simp only: cell sum_list_addf)
  then show ?case using one Cons by simp
qed

lemma arange_exact:
  "step \<noteq> 0 \<Longrightarrow>
     arange start stop step = Inr (map (\<lambda>i. start + real i * step) [0..<nat \<lceil>(stop - start) / step\<rceil>])"
  by (simp add: arange_def Let_def)

lemma edges_cover:
  assumes "0 < pd" and "0 < x1 - x0"
  shows "\<exists>E. bin_edges (x0, x1) pd = Inr E \<and> 2 \<le> length E \<and> sorted E
    \<and> hd E = x0 \<and> x1 \<le> last E"
proof -
  define n where "n = nat \<lceil>(x1 + pd - x0) / pd\<rceil>"
  define E where "E = map (\<lambda>i. x0 + real i * pd) [0..<n]"
  have be: "bin_edges (x0, x1) pd = Inr E"
    using assms(1) by (simp add: bin_edges_def arange_exact E_def n_def)
  have q: "(x1 + pd - x0) / pd = (x1 - x0) / pd + 1"
    using assms(1) by (simp add: field_simps)
  have "0 < (x1 - x0) / pd" using assms by simp
  then have "1 < (x1 + pd - x0) / pd" by (simp only: q)
  then have "2 \<le> \<lceil>(x1 + pd - x0) / pd\<rceil>" by linarith
  then have n2: "2 \<le> n" unfolding n_def by linarith
  then obtain m where m: "n = Suc m" "1 \<le> m" by (cases n) auto
  have "(x1 + pd - x0) / pd \<le> real_of_int \<lceil>(x1 + pd - x0) / pd\<rceil>" by linarith
  also have "\<dots> = real n" using n2 unfolding n_def by simp
  finally have "(x1 - x0) / pd + 1 \<le> real m + 1" using q m(1) by simp
  then have "(x1 - x0) / pd \<le> real m" by simp
  then have "x1 - x0 \<le> real m * pd"
    using assms(1) by (simp add: pos_divide_le_eq)
  then have cover: "x1 \<le> x0 + real m * pd" by linarith
  have lastE: "last E = x0 + real m * pd"
    by (simp add: E_def m(1))
  have hdE: "hd E = x0"
    by (simp add: E_def m(1) upt_conv_Cons del: upt_Suc)
  have "sorted E"
    using assms(1) by (auto simp: E_def sorted_iff_nth_mono mult_right_mono)
  moreover have "2 \<le> length E" using n2 by (simp add: E_def)
  ultimately show ?thesis
    using be cover lastE hdE by auto
qed

lemma sorted_le_last:
  assumes "sorted E" and "e \<in> set E"
  shows "e \<le> last E"
proof -
  from assms(2) obtain i where i: "i < length E" "E ! i = e"
    by (auto simp: in_set_conv_nth)
  then have ne: "E \<noteq> []" by auto
  have "E ! i \<le> E ! (length E - 1)"
    using assms(1) i(1) by (intro sorted_nth_mono) auto
  then show ?thesis using i(2) ne by (simp add: last_conv_nth)
qed

lemma takeWhile_short:
  assumes "y \<in> set xs" and "\<not> P y"
  shows "length (takeWhile P xs) < length xs"
proof -
  have "dropWhile P xs \<noteq> []" using assms by (auto simp: dropWhile_eq_Nil_conv)
  then have "0 < length (dropWhile P xs)" by simp
  moreover have "length (takeWhile P xs) + length (dropWhile P xs) = length xs"
    by (metis length_append takeWhile_dropWhile_id)
  ultimately show ?thesis by linarith
qed

lemma bin_number_inside:
  assumes "sorted E" and "2 \<le> length E" and "hd E \<le> x" and "x \<le> last E"
  shows "1 \<le> bin_number E x \<and> bin_number E x \<le> length E - 1"
proof (cases "x = last E")
  case True
  have "\<forall>e \<in> set E. e \<le> x"
    using assms(1) True by (auto intro: sorted_le_last)
  then have tw: "takeWhile (\<lambda>e. e \<le> x) E = E" by simp
  have "searchsorted_right E x = length E"
    unfolding searchsorted_right_def tw ..
  moreover have "E \<noteq> []" using assms(2) by auto
  ultimately have "bin_number E x = length E - 1"
    using True by (simp add: bin_number_def)
  then show ?thesis
    using assms(2) by simp
next
  case False
  obtain e es where E: "E = e # es" using assms(2) by (cases E) auto
  have "\<not> last E \<le> x" using False assms(4) by simp
  moreover have "last E \<in> set E" using E by simp
  ultimately have "length (takeWhile (\<lambda>e. e \<le> x) E) < length E"
    by (rule takeWhile_short [rotated])
  then have up: "length (takeWhile (\<lambda>e. e \<le> x) E) \<le> length E - 1"
    by linarith
  have "1 \<le> length (takeWhile (\<lambda>e. e \<le> x) E)"
    using assms(3) by (simp add: E)
  then show ?thesis
    using up False by (simp add: bin_number_def searchsorted_right_def)
qed

lemma extents_bounds:
  assumes "extents pp = Inr ((x0, x1), (y0, y1), xl, yl)"
  shows "pp \<noteq> [] \<and> xl = x1 - x0 \<and> yl = y1 - y0
    \<and> (\<forall>p \<in> set pp. x0 \<le> fst p \<and> fst p \<le> x1 \<and> y0 \<le> snd p \<and> snd p \<le> y1)"
proof -
  have ne: "pp \<noteq> []" using assms by (auto simp: extents_def np_min_def)
  then have nf: "map fst pp \<noteq> []" and ns: "map snd pp \<noteq> []" by simp_all
  have "extents pp = Inr ((Min (set (map fst pp)), Max (set (map fst pp))),
      (Min (set (map snd pp)), Max (set (map snd pp))),
      Max (set (map fst pp)) - Min (set (map fst pp)),
      Max (set (map snd pp)) - Min (set (map snd pp)))"
    unfolding extents_def
    by (simp only: np_min_Min [OF nf] np_max_Max [OF nf] np_min_Min [OF ns] np_max_Max [OF ns] sum.case)
  with assms have eq: "x0 = Min (set (map fst pp))" "x1 = Max (set (map fst pp))"
      "y0 = Min (set (map snd pp))" "y1 = Max (set (map snd pp))"
      "xl = x1 - x0" "yl = y1 - y0"
    by simp_all
  have "x0 \<le> fst p \<and> fst p \<le> x1 \<and> y0 \<le> snd p \<and> snd p \<le> y1" if "p \<in> set pp" for p
  proof -
    from that have "fst p \<in> set (map fst pp)" "snd p \<in> set (map snd pp)" by simp_all
    then show ?thesis
      unfolding eq(1-4) by (intro conjI Min_le Max_ge) simp_all
  qed
  then show ?thesis using ne eq(5,6) by blast
qed

lemma histogram_counts_all:
  assumes "sorted xE" and "2 \<le> length xE" and "sorted yE" and "2 \<le> length yE"
    and "\<forall>p \<in> set pp. hd xE \<le> fst p \<and> fst p \<le> last xE \<and> hd yE \<le> snd p \<and> snd p \<le> last yE"
  shows "\<exists>arr. hist2d pp xE yE = Inr arr \<and> grid_total arr = length pp"
proof -
  let ?f = "\<lambda>p. bin_number xE (fst p) - 1" and ?g = "\<lambda>p. bin_number yE (snd p) - 1"
  let ?H = "map (\<lambda>a. map (\<lambda>b. length (filter (\<lambda>(x, y).
                  bin_number xE x = Suc a \<and> bin_number yE y = Suc b) pp))
                [0..<length yE - 1]) [0..<length xE - 1]"
  have z: "zip (map fst pp) (map snd pp) = pp" by (simp add: zip_map_fst_snd)
  have h: "hist2d pp xE yE = Inr (transpose ?H)"
    using assms(1,3) by (simp add: hist2d_def histogram2d_def z)
  have inside: "1 \<le> bin_number xE (fst p) \<and> bin_number xE (fst p) \<le> length xE - 1
      \<and> 1 \<le> bin_number yE (snd p) \<and> bin_number yE (snd p) \<le> length yE - 1"
    if "p \<in> set pp" for p
    using that assms bin_number_inside [of xE "fst p"] bin_number_inside [of yE "snd p"] by blast
  have cell: "filter (\<lambda>(x, y). bin_number xE x = Suc a \<and> bin_number yE y = Suc b) pp
      = filter (\<lambda>p. ?f p = a \<and> ?g p = b) pp" for a b
  proof (rule filter_cong [OF refl])
    fix p assume "p \<in> set pp"
    from inside [OF this]
    show "(case p of (x, y) \<Rightarrow> bin_number xE x = Suc a \<and> bin_number yE y = Suc b)
        = (?f p = a \<and> ?g p = b)"
      by (cases p) auto
  qed
  have bound: "\<forall>p \<in> set pp. ?f p < length xE - 1 \<and> ?g p < length yE - 1"
    using inside by fastforce
  have "grid_total ?H = (\<Sum>a\<leftarrow>[0..<length xE - 1]. \<Sum>b\<leftarrow>[0..<length yE - 1].
      length (filter (\<lambda>p. ?f p = a \<and> ?g p = b) pp))"
    by (simp add: grid_total_def comp_def cell)
  also have "\<dots> = length pp"
    by (rule count_cells [OF bound])
  finally have "grid_total (transpose ?H) = length pp"
    by (simp add: grid_total_transpose)
  with h show ?thesis by blast
qed

text \<open>
  In exact arithmetic the grid encloses every projected point: the last edge is
  \<open>min + \<lceil>l / pd\<rceil> * pd\<close>, which is at least the maximum, and the counts add up to the
  number of points.
\<close>

lemma density_grid_total_exact:
  assumes "extents pp = Inr (xext, yext, xl, yl)" and "0 < xl" and "0 < yl"
  shows "\<exists>arr. density_grid pp = Inr arr \<and> grid_total arr = length pp"
proof -
  obtain x0 x1 y0 y1 where xy: "xext = (x0, x1)" "yext = (y0, y1)"
    by (cases xext, cases yext) auto
  from extents_bounds [OF assms(1) [unfolded xy]]
  have ne: "pp \<noteq> []" and l: "xl = x1 - x0" "yl = y1 - y0"
    and b: "\<forall>p \<in> set pp. x0 \<le> fst p \<and> fst p \<le> x1 \<and> y0 \<le> snd p \<and> snd p \<le> y1"
    by blast+
  define pd where "pd = point_density xl yl (length pp)"
  have "0 < xl * yl / real (length pp)" using assms(2,3) ne by simp
  then have pd: "0 < pd" unfolding pd_def point_density_def by simp
  from edges_cover [OF pd, of x1 x0] assms(2) l(1)
  obtain xE where xE: "bin_edges (x0, x1) pd = Inr xE" "2 \<le> length xE" "sorted xE"
      "hd xE = x0" "x1 \<le> last xE" by auto
  from edges_cover [OF pd, of y1 y0] assms(3) l(2)
  obtain yE where yE: "bin_edges (y0, y1) pd = Inr yE" "2 \<le> length yE" "sorted yE"
      "hd yE = y0" "y1 \<le> last yE" by auto
  have "\<forall>p \<in> set pp. hd xE \<le> fst p \<and> fst p \<le> last xE \<and> hd yE \<le> snd p \<and> snd p \<le> last yE"
    using b xE(4,5) yE(4,5) by fastforce
  from histogram_counts_all [OF xE(3,2) yE(3,2) this]
  obtain arr where arr: "hist2d pp xE yE = Inr arr" "grid_total arr = length pp" by blast
  have "density_grid pp = Inr arr"
    using assms(1) xE(1) yE(1) arr(1) by (simp add: density_grid_def xy pd_def [symmetric])
  with arr(2) show ?thesis by blast
qed

lemma angle_image_grid:
  assumes "angle_image f out sp a = Inr img"
  shows "\<exists>arr. density_grid (projection sp a) = Inr arr \<and> img_data img = log_transform arr"
  using assms
  by (auto simp: angle_image_def density_grid_def Let_def split: sum.splits prod.splits)

section \<open>The count grid in binary64\<close>

subsection \<open>The rounding model\<close>

lemma bit_length_nonneg: "0 \<le> bit_length n"
proof (induction n rule: bit_length.induct)
  case (1 n)
  then show ?case by (subst bit_length.simps) auto
qed

lemma bit_length_upper: "n < 2 ^ nat (bit_length n)"
proof (induction n rule: bit_length.induct)
  case (1 n)
  show ?case
  proof (cases "0 < n")
    case False
    then have "n < 1" by simp
    then show ?thesis by (subst bit_length.simps) (use False in simp)
  next
    case True
    then have bl: "bit_length n = 1 + bit_length (n div 2)"
      by (subst bit_length.simps) simp
    have "n div 2 < 2 ^ nat (bit_length (n div 2))" using 1 True by simp
    then have "n div 2 + 1 \<le> 2 ^ nat (bit_length (n div 2))" by simp
    then have "n < 2 * 2 ^ nat (bit_length (n div 2))" by linarith
    moreover have "nat (1 + bit_length (n div 2)) = Suc (nat (bit_length (n div 2)))"
      using bit_length_nonneg [of "n div 2"] by simp
    ultimately show ?thesis by (simp add: bl)
  qed
qed

lemma bit_length_lower: "0 < n \<Longrightarrow> 2 ^ nat (bit_length n - 1) \<le> n"
proof (induction n rule: bit_length.induct)
  case (1 n)
  then have bl: "bit_length n = 1 + bit_length (n div 2)"
    by (subst bit_length.simps) simp
  show ?case
  proof (cases "0 < n div 2")
    case False
    then have "n = 1" using 1(2) by linarith
    then show ?thesis
      by (subst bit_length.simps, subst bit_length.simps) simp
  next
    case True
    then have ih: "2 ^ nat (bit_length (n div 2) - 1) \<le> n div 2" using 1 by simp
    have "0 < bit_length (n div 2)"
      using True bit_length_nonneg [of "n div 2 div 2"] by (subst bit_length.simps) simp
    then have "nat (bit_length (n div 2)) = Suc (nat (bit_length (n div 2) - 1))" by simp
    then have "(2::int) ^ nat (bit_length (n div 2)) = 2 * 2 ^ nat (bit_length (n div 2) - 1)"
      by simp
    also have "\<dots> \<le> 2 * (n div 2)" using ih by simp
    also have "\<dots> \<le> n" by simp
    finally show ?thesis by (simp add: bl)
  qed
qed

lemma isqrt_bits_root:
  "0 \<le> r \<Longrightarrow> r * r \<le> n \<Longrightarrow> n < (r + 2 ^ k) * (r + 2 ^ k) \<Longrightarrow>
     isqrt_bits k n r * isqrt_bits k n r \<le> n
     \<and> n < (isqrt_bits k n r + 1) * (isqrt_bits k n r + 1) \<and> 0 \<le> isqrt_bits k n r"
proof (induction k arbitrary: r)
  case 0
  then show ?case by simp
next
  case (Suc k)
  show ?case
  proof (cases "(r + 2 ^ k) * (r + 2 ^ k) \<le> n")
    case True
    have "r + 2 ^ k + 2 ^ k = r + 2 ^ Suc k" by simp
    then have "n < (r + 2 ^ k + 2 ^ k) * (r + 2 ^ k + 2 ^ k)" using Suc.prems(3) by (simp only: )
    moreover have "0 \<le> r + 2 ^ k" using Suc.prems(1) by simp
    ultimately show ?thesis using True Suc.IH [of "r + 2 ^ k"] by simp
  next
    case False
    then show ?thesis using Suc.IH [of r] Suc.prems by simp
  qed
qed

text \<open>\<open>isqrt\<close> is the integer square root.\<close>

lemma isqrt_root:
  assumes "0 \<le> n"
  shows "isqrt n * isqrt n \<le> n \<and> n < (isqrt n + 1) * (isqrt n + 1) \<and> 0 \<le> isqrt n"
proof -
  let ?k = "nat (bit_length n)"
  have "n < 2 ^ ?k" by (rule bit_length_upper)
  moreover have "(1::int) \<le> 2 ^ ?k" by simp
  ultimately have "n * 1 < 2 ^ ?k * 2 ^ ?k"
    using assms by (intro mult_less_le_imp_less) simp_all
  then have "n < (0 + 2 ^ ?k) * (0 + 2 ^ ?k)" by simp
  from isqrt_bits_root [OF _ _ this] assms show ?thesis
    by (simp add: isqrt_def)
qed

lemma round_half_even_error: "\<bar>of_int (round_half_even x) - x\<bar> \<le> 1 / 2"
proof -
  have "of_int \<lfloor>x\<rfloor> \<le> x" "x < of_int \<lfloor>x\<rfloor> + 1" by linarith+
  then show ?thesis
    by (auto simp: round_half_even_def Let_def abs_le_iff)
qed

lemma pow2_powi: "pow2 e = 2 powi e"
  by (simp add: pow2_def power_int_def field_simps)

lemma pow2_pos: "0 < pow2 e"
  by (simp add: pow2_powi)

text \<open>\<open>ilog2\<close> is the binary exponent of a non-zero rational.\<close>

lemma ilog2_bounds:
  assumes "q \<noteq> 0"
  shows "pow2 (ilog2 q) \<le> \<bar>q\<bar> \<and> \<bar>q\<bar> < pow2 (ilog2 q + 1)"
proof -
  obtain n d where nd: "quotient_of \<bar>q\<bar> = (n, d)" by (cases "quotient_of \<bar>q\<bar>") auto
  then have d: "0 < d" and a: "\<bar>q\<bar> = of_int n / of_int d"
    by (simp_all add: quotient_of_denom_pos quotient_of_div)
  have "0 < \<bar>q\<bar>" using assms by simp
  then have n: "0 < n" using a d by (simp add: zero_less_divide_iff)
  define bn bd where "bn = bit_length n" and "bd = bit_length d"
  have bn: "(2::int) ^ nat (bn - 1) \<le> n" "n < 2 ^ nat bn"
    using bit_length_lower [OF n] bit_length_upper [of n] by (simp_all add: bn_def)
  have bd: "(2::int) ^ nat (bd - 1) \<le> d" "d < 2 ^ nat bd"
    using bit_length_lower [OF d] bit_length_upper [of d] by (simp_all add: bd_def)
  have bn1: "1 \<le> bn"
    using n bit_length_nonneg [of "n div 2"] unfolding bn_def by (subst bit_length.simps) simp
  have bd1: "1 \<le> bd"
    using d bit_length_nonneg [of "d div 2"] unfolding bd_def by (subst bit_length.simps) simp
  have rn: "(2::rat) powi (bn - 1) \<le> of_int n" "(of_int n :: rat) < 2 powi bn"
  proof -
    have "(of_int (2 ^ nat (bn - 1)) :: rat) \<le> of_int n" using bn(1) by (simp only: of_int_le_iff)
    then show "(2::rat) powi (bn - 1) \<le> of_int n" using bn1 by (simp add: power_int_def)
    have "(of_int n :: rat) < of_int (2 ^ nat bn)" using bn(2) by (simp only: of_int_less_iff)
    then show "(of_int n :: rat) < 2 powi bn" using bn1 by (simp add: power_int_def)
  qed
  have rd: "(2::rat) powi (bd - 1) \<le> of_int d" "(of_int d :: rat) < 2 powi bd"
  proof -
    have "(of_int (2 ^ nat (bd - 1)) :: rat) \<le> of_int d" using bd(1) by (simp only: of_int_le_iff)
    then show "(2::rat) powi (bd - 1) \<le> of_int d" using bd1 by (simp add: power_int_def)
    have "(of_int d :: rat) < of_int (2 ^ nat bd)" using bd(2) by (simp only: of_int_less_iff)
    then show "(of_int d :: rat) < 2 powi bd" using bd1 by (simp add: power_int_def)
  qed
  have dpos: "(0::rat) < of_int d" using d by simp
  have npos: "(0::rat) < of_int n" using n by simp
  have up: "\<bar>q\<bar> < 2 powi (bn - bd + 1)"
  proof -
    have "of_int n * (2::rat) powi (bd - 1) < 2 powi bn * of_int d"
      using rn(2) rd(1) npos by (intro mult_less_le_imp_less) simp_all
    then have "of_int n / of_int d < (2::rat) powi bn / 2 powi (bd - 1)"
      using dpos by (simp add: field_simps)
    also have "\<dots> = 2 powi (bn - (bd - 1))" by (simp add: power_int_diff)
    finally show ?thesis by (simp add: a algebra_simps)
  qed
  have low: "2 powi (bn - bd - 1) < \<bar>q\<bar>"
  proof -
    have "(2::rat) powi (bn - 1) * of_int d < of_int n * 2 powi bd"
      using rn(1) rd(2) npos dpos by (intro mult_le_less_imp_less) simp_all
    then have "(2::rat) powi (bn - 1) / 2 powi bd < of_int n / of_int d"
      using dpos by (simp add: field_simps)
    moreover have "(2::rat) powi (bn - 1) / 2 powi bd = 2 powi (bn - 1 - bd)"
      by (simp add: power_int_diff)
    ultimately show ?thesis by (simp add: a algebra_simps)
  qed
  have il: "ilog2 q = (if 2 powi (bn - bd) \<le> \<bar>q\<bar> then bn - bd else bn - bd - 1)"
    by (simp add: ilog2_def nd Let_def bn_def bd_def pow2_powi)
  show ?thesis
  proof (cases "2 powi (bn - bd) \<le> \<bar>q\<bar>")
    case True
    then show ?thesis using up by (simp add: il pow2_powi)
  next
    case False
    then show ?thesis using low by (simp add: il pow2_powi)
  qed
qed

text \<open>
  \<open>rnd64 q\<close> is a number with a significand of at most 53 bits at the exponent of \<open>q\<close>, and
  it is within half a unit in the last place of \<open>q\<close>.
\<close>

lemma rnd64_nearest:
  assumes "q \<noteq> 0"
  shows "\<exists>m. rnd64 q = of_int m * pow2 (ilog2 q - 52) \<and> 2 ^ 52 \<le> \<bar>m\<bar> \<and> \<bar>m\<bar> \<le> 2 ^ 53
    \<and> \<bar>rnd64 q - q\<bar> \<le> pow2 (ilog2 q - 52) / 2"
proof -
  define u where "u = pow2 (ilog2 q - 52)"
  define x where "x = q / u"
  define m where "m = round_half_even x"
  have u: "0 < u" by (simp add: u_def pow2_pos)
  have r: "rnd64 q = of_int m * u"
    using assms by (simp add: rnd64_def Let_def u_def x_def m_def)
  have err: "\<bar>of_int m - x\<bar> \<le> 1 / 2"
    unfolding m_def by (rule round_half_even_error)
  have "rnd64 q - q = (of_int m - x) * u"
    using u by (simp add: r x_def left_diff_distrib)
  then have "\<bar>rnd64 q - q\<bar> = \<bar>of_int m - x\<bar> * u"
    using u by (simp add: abs_mult)
  also have "\<dots> \<le> 1 / 2 * u" using err u by (intro mult_right_mono) simp_all
  finally have e: "\<bar>rnd64 q - q\<bar> \<le> u / 2" by simp
  have pu: "pow2 (ilog2 q) = 2 ^ 52 * u" "pow2 (ilog2 q + 1) = 2 ^ 53 * u"
    by (simp_all add: u_def pow2_powi power_int_diff power_int_add)
  from ilog2_bounds [OF assms] have "2 ^ 52 * u \<le> \<bar>q\<bar>" "\<bar>q\<bar> < 2 ^ 53 * u"
    by (simp_all add: pu)
  then have ax: "2 ^ 52 \<le> \<bar>x\<bar>" "\<bar>x\<bar> < 2 ^ 53"
    using u by (simp_all add: x_def pos_le_divide_eq pos_divide_less_eq)
  have "2 ^ 52 - 1 / 2 \<le> \<bar>(of_int m :: rat)\<bar>" "\<bar>(of_int m :: rat)\<bar> < 2 ^ 53 + 1 / 2"
    using err ax by linarith+
  then have "(of_int (2 ^ 52 - 1) :: rat) < of_int \<bar>m\<bar>" "(of_int \<bar>m\<bar> :: rat) < of_int (2 ^ 53 + 1)"
    by simp_all
  then have "2 ^ 52 - 1 < \<bar>m\<bar>" "\<bar>m\<bar> < 2 ^ 53 + 1"
    by (simp_all only: of_int_less_iff)
  then have "2 ^ 52 \<le> \<bar>m\<bar>" "\<bar>m\<bar> \<le> 2 ^ 53" by linarith+
  then show ?thesis using r e by (auto simp: u_def)
qed

text \<open>
  The rounding agrees with well-known binary64 values: 0.1 is \<open>3602879701896397 / 2\<^sup>5\<^sup>5\<close>,
  0.1 + 0.2 is not 0.3, and the square root of 2 is \<open>6369051672525773 / 2\<^sup>5\<^sup>2\<close>.
\<close>

lemma rnd64_known_values:
  "rnd64 (1 / 10) = 3602879701896397 / 36028797018963968"
  "fadd (rnd64 (1 / 10)) (rnd64 (2 / 10)) = 1351079888211149 / 4503599627370496"
  "rnd64 (3 / 10) = 5404319552844595 / 18014398509481984"
  "fsqrt 2 = 6369051672525773 / 4503599627370496"
  by code_simp+

subsection \<open>The nine points\<close>

text \<open>
  The steps of \<open>density_grid64\<close> on the nine points, each evaluated by rewriting with the
  defining equations: the density, the extents, the x-edges, the y-edges and the histogram.
\<close>

lemma pd9: "point_density64 1 1 9 = 6004799503160661 / 18014398509481984"
  by code_simp

lemma ext9: "extents64 cloud9 = Inr ((- 1, 0), (0, 1), 1, 1)"
  by code_simp

lemma xb9: "bin_edges64 (- 1, 0) (6004799503160661 / 18014398509481984) =
  Inr [- 1, - (3002399751580331 / 4503599627370496),
      - (750599937895083 / 2251799813685248), - (1 / 4503599627370496)]"
  by code_simp

lemma yb9: "bin_edges64 (0, 1) (6004799503160661 / 18014398509481984) =
  Inr [0, 6004799503160661 / 18014398509481984, 6004799503160661 / 9007199254740992, 1]"
  by code_simp

lemma h9: "hist2d cloud9 [- 1, - (3002399751580331 / 4503599627370496),
      - (750599937895083 / 2251799813685248), - (1 / 4503599627370496)]
      [0, 6004799503160661 / 18014398509481984, 6004799503160661 / 9007199254740992, 1]
    = Inr [[1, 0, 0], [0, 0, 0], [0, 0, 0]]"
  by code_simp

lemma density_grid64_cloud9: "density_grid64 cloud9 = Inr [[1, 0, 0], [0, 0, 0], [0, 0, 0]]"
proof -
  have len: "length cloud9 = 9" by (simp add: cloud9_def)
  show ?thesis
    by (simp add: density_grid64_def ext9 len pd9 xb9 yb9 h9)
qed

text \<open>
  The density of the nine points is the binary64 number nearest to the square root of the
  rounded ninth: the root lies within half a unit in the last place (\<open>2\<^sup>-\<^sup>5\<^sup>5\<close>) of it.
\<close>

lemma pd9_nearest_root:
  "(6004799503160661 / 18014398509481984 - 1 / 2 ^ 55) ^ 2 < (2001599834386887 / 18014398509481984 :: rat)"
  "(2001599834386887 / 18014398509481984 :: rat) < (6004799503160661 / 18014398509481984 + 1 / 2 ^ 55) ^ 2"
  by code_simp+

text \<open>
  In exact arithmetic the nine points are the projection of the cloud at angle 0, and their
  grid counts all nine.
\<close>

lemma cloud9_projection:
  "offset cloud9_3d = Inr (0, 0, 0)"
  "projection (shift_points cloud9_3d (0, 0, 0)) 0 =
     [(0, 1), (- 1, 0), (0, 0), (0, 0), (0, 0), (0, 0), (0, 0), (0, 0), (0, 0)]"
  by (simp_all add: cloud9_3d_def offset_def find_highest_point_def argmax_def
      projection_def get_plane_def radians_def project_to_plane_def column_stack_def
      dot_rows_def shift_points_def)

lemma cloud9_exact:
  "\<exists>arr. density_grid [(0, 1), (- 1, 0), (0, 0), (0, 0), (0, 0), (0, 0), (0, 0), (0, 0), (0, 0)]
       = Inr arr \<and> grid_total arr = 9"
proof -
  let ?pp = "[(0, 1), (- 1, 0), (0, 0), (0, 0), (0, 0), (0, 0), (0, 0), (0, 0), (0, 0)] :: point2 list"
  have e: "extents ?pp = Inr ((- 1, 0), (0, 1), 1, 1)"
    by (simp add: extents_def np_min_def np_max_def)
  have "length ?pp = 9" by simp
  moreover from density_grid_total_exact [OF e]
  obtain arr where "density_grid ?pp = Inr arr" "grid_total arr = length ?pp" by auto
  ultimately show ?thesis by (simp only: ) blast
qed

text \<open>
  C1, at nine points. The x-extent is 1 and the y-extent is 1, both positive. The density is
  the binary64 number next below 1/3, the x-edges are \<open>-1\<close>, about \<open>-2/3\<close>, about \<open>-1/3\<close> and
  \<open>-2\<^sup>-\<^sup>5\<^sup>2\<close>, so the eight points with \<open>x = 0\<close> lie to the right of the last edge and are not
  counted: the cells add up to 1, not to 9.
\<close>

theorem histogram_drops_points_binary64:
  "length cloud9 = 9
   \<and> extents64 cloud9 = Inr ((- 1, 0), (0, 1), 1, 1)
   \<and> bin_edges64 (- 1, 0) (point_density64 1 1 9) =
        Inr [- 1, - (3002399751580331 / 4503599627370496),
             - (750599937895083 / 2251799813685248), - (1 / 4503599627370496)]
   \<and> density_grid64 cloud9 = Inr [[1, 0, 0], [0, 0, 0], [0, 0, 0]]
   \<and> grid_total [[1, 0, 0], [0, 0, 0], [0, 0, 0]] = 1"
  by (simp add: ext9 pd9 xb9 density_grid64_cloud9 grid_total_def) (simp add: cloud9_def)

end
